theory Spec2Isabelle
  imports Main "HOL-Library.Word"
begin

section \<open>The image buffer\<close>

text \<open>
  \<^verbatim>\<open>process_logo.py\<close> works on a Pillow image in mode RGBA: a grid of
  \<open>width \<times> height\<close> pixels, each a 4-tuple \<open>(r, g, b, a)\<close> of values in
  \<open>0..255\<close>. \<^verbatim>\<open>img.getdata()\<close> yields the pixels as one flat, row-major
  sequence and \<^verbatim>\<open>img.putdata(seq)\<close> writes such a sequence back, starting at
  the upper left corner.
\<close>

type_synonym pixel = "8 word \<times> 8 word \<times> 8 word \<times> 8 word"

text \<open>The alpha channel of a pixel.\<close>

fun alpha :: "pixel \<Rightarrow> 8 word" where
  "alpha (r, g, b, a) = a"

record image =
  width :: nat
  height :: nat
  data :: "pixel list"

definition wf_image :: "image \<Rightarrow> bool" where
  "wf_image img = (length (data img) = width img * height img)"

definition getdata :: "image \<Rightarrow> pixel list" where
  "getdata img = data img"

text \<open>
  \<^verbatim>\<open>putdata\<close> copies until the image or the sequence ends; the size of the
  image never changes. The script always passes a sequence as long as the image.
\<close>

definition putdata :: "image \<Rightarrow> pixel list \<Rightarrow> image" where
  "putdata img new_data =
     img\<lparr>data := take (length (data img)) new_data @ drop (length new_data) (data img)\<rparr>"

section \<open>The threshold loop (lines 11 to 24)\<close>

definition threshold :: "8 word" where
  "threshold = 15"

text \<open>
  One iteration of \<^verbatim>\<open>for item in datas\<close>: the value appended to
  \<^verbatim>\<open>new_data\<close>.
\<close>

fun threshold_item :: "pixel \<Rightarrow> pixel" where
  "threshold_item (r, g, b, a) =
     (if r < threshold \<and> g < threshold \<and> b < threshold then (0, 0, 0, 0) else (r, g, b, a))"

fun threshold_loop :: "pixel list \<Rightarrow> pixel list \<Rightarrow> pixel list" where
  "threshold_loop [] new_data = new_data"
| "threshold_loop (item # datas) new_data = threshold_loop datas (new_data @ [threshold_item item])"

definition apply_threshold :: "image \<Rightarrow> image" where
  "apply_threshold img = putdata img (threshold_loop (getdata img) [])"

section \<open>Bounding box and crop (lines 26 to 28)\<close>

text \<open>
  Reading a pixel by its coordinates, origin at the top left, rows first. Outside the
  image the value is \<open>(0,0,0,0)\<close>, which is what a crop beyond the image would put
  there; the box that the script crops to never reaches outside.
\<close>

definition pixel_at :: "image \<Rightarrow> nat \<Rightarrow> nat \<Rightarrow> pixel" where
  "pixel_at img x y =
     (if x < width img \<and> y < height img then data img ! (y * width img + x) else (0, 0, 0, 0))"

text \<open>
  \<^verbatim>\<open>Image.getbbox\<close> is Pillow's, not part of \<^verbatim>\<open>process_logo.py\<close>.
  Which pixels it counts as content is a parameter of the box, and of everything that
  uses the box; the two tests of interest follow.
\<close>

type_synonym content_test = "pixel \<Rightarrow> bool"

text \<open>
  The test that \<^verbatim>\<open>img.getbbox()\<close>, called as the script calls it, applies to an
  image with an alpha channel: Pillow documents the default \<^verbatim>\<open>alpha_only=True\<close>,
  under which a pixel counts when its alpha is not zero, whatever its colour.
\<close>

definition alpha_only :: content_test where
  "alpha_only p = (alpha p \<noteq> 0)"

text \<open>Modelled from the spec: the content test that section 4.3 of the spec describes.
  A pixel is left out of the box only if all four of its channels are zero. It differs
  from \<open>alpha_only\<close> at the pixels with alpha zero and a colour.\<close>

definition is_content :: content_test where
  "is_content p = (p \<noteq> (0, 0, 0, 0))"

text \<open>Modelled from the spec: part of \<^verbatim>\<open>Image.getbbox\<close>, which is Pillow's.
  Column \<open>x\<close> holds a pixel that counts.\<close>

definition column_has_content :: "content_test \<Rightarrow> image \<Rightarrow> nat \<Rightarrow> bool" where
  "column_has_content content img x =
     list_ex (\<lambda>y. content (pixel_at img x y)) [0..<height img]"

text \<open>Modelled from the spec: part of \<^verbatim>\<open>Image.getbbox\<close>, which is Pillow's.
  Row \<open>y\<close> holds a pixel that counts.\<close>

definition row_has_content :: "content_test \<Rightarrow> image \<Rightarrow> nat \<Rightarrow> bool" where
  "row_has_content content img y =
     list_ex (\<lambda>x. content (pixel_at img x y)) [0..<width img]"

text \<open>Modelled from the spec: \<^verbatim>\<open>Image.getbbox\<close> is Pillow's. The box is
  \<open>(left, upper, right, lower)\<close>, right and lower exclusive, around the columns and rows
  that hold content; \<open>None\<close> when there is no content.\<close>

definition getbbox :: "content_test \<Rightarrow> image \<Rightarrow> (nat \<times> nat \<times> nat \<times> nat) option" where
  "getbbox content img =
     (let xs = filter (column_has_content content img) [0..<width img];
          ys = filter (row_has_content content img) [0..<height img]
      in if xs = [] \<or> ys = [] then None
         else Some (hd xs, hd ys, Suc (last xs), Suc (last ys)))"

text \<open>
  The flat, row-major buffer of a \<open>w \<times> h\<close> grid whose pixel at \<open>(x, y)\<close> is \<open>f x y\<close>;
  the buffer of a cropped image is built this way.
\<close>

definition grid :: "nat \<Rightarrow> nat \<Rightarrow> (nat \<Rightarrow> nat \<Rightarrow> 'a) \<Rightarrow> 'a list" where
  "grid w h f = concat (map (\<lambda>y. map (\<lambda>x. f x y) [0..<w]) [0..<h])"

text \<open>Modelled from the spec: \<^verbatim>\<open>Image.crop\<close> is Pillow's. The result is the
  sub-rectangle of the box, as a new image.\<close>

fun crop :: "image \<Rightarrow> nat \<times> nat \<times> nat \<times> nat \<Rightarrow> image" where
  "crop img (left, upper, right, lower) =
     \<lparr>width = right - left, height = lower - upper,
      data = grid (right - left) (lower - upper) (\<lambda>x y. pixel_at img (left + x) (upper + y))\<rparr>"

text \<open>
  Lines 26 to 28: \<^verbatim>\<open>bbox = img.getbbox()\<close> and
  \<^verbatim>\<open>if bbox: img = img.crop(bbox)\<close>. Without a box the image is kept as it is.
\<close>

definition crop_content :: "content_test \<Rightarrow> image \<Rightarrow> image" where
  "crop_content content img =
     (case getbbox content img of None \<Rightarrow> img | Some bbox \<Rightarrow> crop img bbox)"

text \<open>Lines 11 to 28: the threshold loop with \<^verbatim>\<open>putdata\<close>, then the crop.\<close>

definition process :: "content_test \<Rightarrow> image \<Rightarrow> image" where
  "process content img = crop_content content (apply_threshold img)"

section \<open>Decoding and the conversion to RGBA (lines 8 and 9)\<close>

text \<open>
  \<^verbatim>\<open>Image.open\<close> and \<^verbatim>\<open>Image.convert\<close> are Pillow's, not part of
  \<^verbatim>\<open>process_logo.py\<close>. What a decoder hands to
  \<^verbatim>\<open>img.convert("RGBA")\<close> is modelled for the 8-bit layouts: bilevel (mode 1),
  grey (mode L), grey with alpha (mode LA), indices into a palette of RGB entries
  (mode P), palette indices with alpha (mode PA), three channels (mode RGB) and four
  channels (mode RGBA). A layout without an alpha channel can carry transparency data,
  as a PNG file's tRNS chunk gives it: a colour key for modes 1, L and RGB; for mode P
  one transparent index or a table with one alpha value for each palette index.
\<close>

type_synonym rgb = "8 word \<times> 8 word \<times> 8 word"

datatype palette_transparency =
    No_transparency
  | Transparent_index "8 word"
  | Alpha_table "8 word list"

datatype raster =
    Mode_1 "bool list" "8 word option"
  | Mode_L "8 word list" "8 word option"
  | Mode_LA "(8 word \<times> 8 word) list"
  | Mode_P "rgb list" "8 word list" palette_transparency
  | Mode_PA "rgb list" "(8 word \<times> 8 word) list"
  | Mode_RGB "rgb list" "rgb option"
  | Mode_RGBA "pixel list"

text \<open>A decoded image: its size and its pixels.\<close>

record decoded =
  d_width :: nat
  d_height :: nat
  d_raster :: raster




text \<open>The colour of a palette index; an index beyond the palette is black.\<close>

definition palette_entry :: "rgb list \<Rightarrow> 8 word \<Rightarrow> rgb" where
  "palette_entry palette i = (if unat i < length palette then palette ! unat i else (0, 0, 0))"

text \<open>
  The alpha of a palette index: 0 for the one transparent index, the table's value for an
  index the table covers, 255 otherwise.
\<close>

fun palette_alpha :: "palette_transparency \<Rightarrow> 8 word \<Rightarrow> 8 word" where
  "palette_alpha No_transparency i = 255"
| "palette_alpha (Transparent_index t) i = (if i = t then 0 else 255)"
| "palette_alpha (Alpha_table table) i = (if unat i < length table then table ! unat i else 255)"

text \<open>A colour with an alpha value.\<close>

fun with_alpha :: "rgb \<Rightarrow> 8 word \<Rightarrow> pixel" where
  "with_alpha (r, g, b) a = (r, g, b, a)"

text \<open>A colour gains the alpha value 255.\<close>

definition opaque :: "rgb \<Rightarrow> pixel" where
  "opaque c = with_alpha c 255"

text \<open>
  A colour under a colour key: the colour that equals the key gets alpha 0 and keeps its
  channels, every other colour gets alpha 255.
\<close>

fun keyed :: "rgb option \<Rightarrow> rgb \<Rightarrow> pixel" where
  "keyed None c = opaque c"
| "keyed (Some key) c = (if c = key then with_alpha c 0 else opaque c)"

text \<open>A grey value as a colour, and a grey key as a colour key.\<close>

definition grey :: "8 word \<Rightarrow> rgb" where
  "grey v = (v, v, v)"

definition bilevel :: "bool \<Rightarrow> 8 word" where
  "bilevel v = (if v then 255 else 0)"

text \<open>
  \<^verbatim>\<open>Image.convert\<close> to RGBA, which is Pillow's: every layout becomes four
  channels. An alpha channel is kept; transparency data becomes alpha; a layout with
  neither gets the alpha value 255.
\<close>

fun convert_data :: "raster \<Rightarrow> pixel list" where
  "convert_data (Mode_1 vs key) = map (\<lambda>v. keyed (map_option grey key) (grey (bilevel v))) vs"
| "convert_data (Mode_L vs key) = map (\<lambda>v. keyed (map_option grey key) (grey v)) vs"
| "convert_data (Mode_LA ps) = map (\<lambda>(v, a). with_alpha (grey v) a) ps"
| "convert_data (Mode_P palette idx tr) =
     map (\<lambda>i. with_alpha (palette_entry palette i) (palette_alpha tr i)) idx"
| "convert_data (Mode_PA palette ps) = map (\<lambda>(i, a). with_alpha (palette_entry palette i) a) ps"
| "convert_data (Mode_RGB ps key) = map (keyed key) ps"
| "convert_data (Mode_RGBA ps) = ps"

text \<open>\<^verbatim>\<open>img.convert("RGBA")\<close>, Pillow's, keeps the size and converts the
  pixels.\<close>

definition convert_RGBA :: "decoded \<Rightarrow> image" where
  "convert_RGBA src =
     \<lparr>width = d_width src, height = d_height src, data = convert_data (d_raster src)\<rparr>"

section \<open>The run of the script\<close>

text \<open>
  The script raises nothing itself; an exception of \<^verbatim>\<open>sys.argv[i]\<close>,
  \<^verbatim>\<open>Image.open\<close> or \<^verbatim>\<open>img.save\<close> is not caught and ends the run.
  The world of a run is the files by path, which paths can be written (the directory
  exists and is writable), and the lines printed so far.
\<close>

datatype error = IndexError | DecodeError | EncodeError

datatype outcome = Success | Uncaught error

record world =
  files :: "string \<Rightarrow> 8 word list option"
  writable :: "string \<Rightarrow> bool"
  stdout :: "string list"

text \<open>
  What Pillow does and the script does not determine is a parameter of the run: the
  decoders, the PNG encoder, and the content test of \<^verbatim>\<open>getbbox\<close>. With the
  Pillow that documents \<^verbatim>\<open>alpha_only=True\<close> as the default, \<open>counts\<close> is
  \<open>alpha_only\<close>.
\<close>

record pillow =
  decode :: "8 word list \<Rightarrow> decoded option"
  encode_png :: "image \<Rightarrow> 8 word list"
  counts :: content_test

definition argv_index :: "string list \<Rightarrow> nat \<Rightarrow> error + string" where
  "argv_index argv i = (if i < length argv then Inr (argv ! i) else Inl IndexError)"

definition print :: "string \<Rightarrow> world \<Rightarrow> world" where
  "print line w = w\<lparr>stdout := stdout w @ [line]\<rparr>"

text \<open>Modelled from the spec: \<^verbatim>\<open>Image.open\<close> is Pillow's. It fails when the path
  is missing or its content is not a decodable image, and changes no file.\<close>

definition Image_open :: "pillow \<Rightarrow> world \<Rightarrow> string \<Rightarrow> error + decoded" where
  "Image_open lib w path =
     (case files w path of
        None \<Rightarrow> Inl DecodeError
      | Some bytes \<Rightarrow> (case decode lib bytes of None \<Rightarrow> Inl DecodeError | Some src \<Rightarrow> Inr src))"

text \<open>Modelled from the spec: \<^verbatim>\<open>Image.save\<close> is Pillow's. It fails, writing
  nothing, when the directory of the path is missing or not writable; otherwise the file
  at the path becomes the PNG encoding of the buffer.\<close>

definition save :: "pillow \<Rightarrow> world \<Rightarrow> image \<Rightarrow> string \<Rightarrow> error + world" where
  "save lib w img path =
     (if writable w path then Inr (w\<lparr>files := (files w)(path \<mapsto> encode_png lib img)\<rparr>)
      else Inl EncodeError)"

text \<open>Lines 4 to 32, \<open>argv\<close> being \<^verbatim>\<open>sys.argv\<close>: the script's name, then the arguments.\<close>

definition main :: "pillow \<Rightarrow> string list \<Rightarrow> world \<Rightarrow> outcome \<times> world" where
  "main lib argv w =
     (case argv_index argv 1 of
        Inl e \<Rightarrow> (Uncaught e, w)
      | Inr image_path \<Rightarrow>
         (case argv_index argv 2 of
            Inl e \<Rightarrow> (Uncaught e, w)
          | Inr output_path \<Rightarrow>
             (let w1 = print (''Opening '' @ image_path) w
              in case Image_open lib w1 image_path of
                   Inl e \<Rightarrow> (Uncaught e, w1)
                 | Inr src \<Rightarrow>
                    (let img = process (counts lib) (convert_RGBA src);
                         w2 = print (''Saving to '' @ output_path) w1
                     in case save lib w2 img output_path of
                          Inl e \<Rightarrow> (Uncaught e, w2)
                        | Inr w3 \<Rightarrow> (Success, print ''Done'' w3)))))"

fun exit_status :: "outcome \<Rightarrow> nat" where
  "exit_status Success = 0"
| "exit_status (Uncaught e) = 1"

text \<open>A pixel inside the image that counts as content.\<close>

definition content_at :: "content_test \<Rightarrow> image \<Rightarrow> nat \<Rightarrow> nat \<Rightarrow> bool" where
  "content_at c img x y = (x < width img \<and> y < height img \<and> c (pixel_at img x y))"

text \<open>
  What it means for a box to be the bounding box of the content of an image; used to
  characterise \<open>getbbox\<close>.
\<close>

definition is_bbox :: "content_test \<Rightarrow> image \<Rightarrow> nat \<times> nat \<times> nat \<times> nat \<Rightarrow> bool" where
  "is_bbox c img bb = (case bb of (l, t, r, b) \<Rightarrow>
     l < r \<and> r \<le> width img \<and> t < b \<and> b \<le> height img \<and>
     (\<exists>y. content_at c img l y) \<and> (\<exists>y. content_at c img (r - 1) y) \<and>
     (\<exists>x. content_at c img x t) \<and> (\<exists>x. content_at c img x (b - 1)) \<and>
     (\<forall>x y. content_at c img x y \<longrightarrow> l \<le> x \<and> x < r \<and> t \<le> y \<and> y < b))"

section \<open>Properties of the threshold loop\<close>

lemma threshold_loop_map: "threshold_loop datas new_data = new_data @ map threshold_item datas"
  by (induction datas arbitrary: new_data) simp_all

lemma putdata_same_length:
  "length new_data = length (data img) \<Longrightarrow> putdata img new_data = img\<lparr>data := new_data\<rparr>"
  by (simp add: putdata_def)

lemma apply_threshold_eq: "apply_threshold img = img\<lparr>data := map threshold_item (data img)\<rparr>"
  by (simp add: apply_threshold_def getdata_def threshold_loop_map putdata_same_length)

text \<open>
  C1. After the threshold step the image has its size and as many pixels as before, and
  at every position of the buffer: a pixel whose R, G and B are all below 15 has become
  exactly \<open>(0,0,0,0)\<close>, whatever its alpha was, and every other pixel is its input value,
  no channel altered. So every pixel is \<open>(0,0,0,0)\<close> or equal to its input.
\<close>

theorem threshold_contract:
  "width (apply_threshold img) = width img \<and>
   height (apply_threshold img) = height img \<and>
   length (data (apply_threshold img)) = length (data img) \<and>
   (\<forall>i r g b a. i < length (data img) \<and> data img ! i = (r, g, b, a) \<longrightarrow>
      (r < 15 \<and> g < 15 \<and> b < 15 \<longrightarrow> data (apply_threshold img) ! i = (0, 0, 0, 0)) \<and>
      (15 \<le> r \<or> 15 \<le> g \<or> 15 \<le> b \<longrightarrow> data (apply_threshold img) ! i = (r, g, b, a)) \<and>
      (data (apply_threshold img) ! i = (0, 0, 0, 0) \<or>
       data (apply_threshold img) ! i = data img ! i))"
  by (auto simp: apply_threshold_eq threshold_def)

section \<open>Lists of positions and grids\<close>

lemma filter_upt_hd:
  assumes "filter P [0..<n] \<noteq> []"
  shows "P (hd (filter P [0..<n]))" and "hd (filter P [0..<n]) < n"
    and "\<And>i. i < n \<Longrightarrow> P i \<Longrightarrow> hd (filter P [0..<n]) \<le> i"
proof -
  let ?xs = "filter P [0..<n]"
  have m: "hd ?xs \<in> set ?xs" using assms by (rule hd_in_set)
  then show "P (hd ?xs)" and "hd ?xs < n" by simp_all
  fix i assume "i < n" "P i"
  then have i: "i \<in> set ?xs" by simp
  have "sorted ?xs" by (simp add: sorted_wrt_filter)
  moreover have "?xs = hd ?xs # tl ?xs" using assms by simp
  ultimately have "sorted (hd ?xs # tl ?xs)" by simp
  then have "\<forall>y\<in>set (tl ?xs). hd ?xs \<le> y" by simp
  moreover from i assms have "i = hd ?xs \<or> i \<in> set (tl ?xs)"
    by (metis list.collapse set_ConsD)
  ultimately show "hd ?xs \<le> i" by auto
qed

lemma filter_upt_last:
  assumes "filter P [0..<n] \<noteq> []"
  shows "P (last (filter P [0..<n]))" and "last (filter P [0..<n]) < n"
    and "\<And>i. i < n \<Longrightarrow> P i \<Longrightarrow> i \<le> last (filter P [0..<n])"
proof -
  let ?xs = "filter P [0..<n]"
  have m: "last ?xs \<in> set ?xs" using assms by (rule last_in_set)
  then show "P (last ?xs)" and "last ?xs < n" by simp_all
  fix i assume "i < n" "P i"
  then have i: "i \<in> set ?xs" by simp
  have "sorted ?xs" by (simp add: sorted_wrt_filter)
  moreover have "?xs = butlast ?xs @ [last ?xs]" using assms by simp
  ultimately have "sorted (butlast ?xs @ [last ?xs])" by simp
  then have "\<forall>y\<in>set (butlast ?xs). y \<le> last ?xs" by (simp add: sorted_append)
  moreover from i assms have "i = last ?xs \<or> i \<in> set (butlast ?xs)"
    by (metis append_butlast_last_id Un_iff set_append set_ConsD empty_iff list.set(1))
  ultimately show "i \<le> last ?xs" by auto
qed

lemma grid_Suc: "grid w (Suc h) f = grid w h f @ map (\<lambda>x. f x h) [0..<w]"
  by (simp add: grid_def)

lemma length_grid: "length (grid w h f) = h * w"
  by (induction h) (simp_all add: grid_def)

lemma nth_grid: "x < w \<Longrightarrow> y < h \<Longrightarrow> grid w h f ! (y * w + x) = f x y"
proof (induction h)
  case 0
  then show ?case by simp
next
  case (Suc h)
  show ?case
  proof (cases "y < h")
    case True
    then have "y * w + x < h * w"
      using Suc.prems(1)
      by (metis Suc_leI add.commute mult.commute mult_Suc_right mult_le_mono1 nat_add_left_cancel_less order_less_le_trans)
    with True Suc show ?thesis by (simp add: grid_Suc nth_append length_grid)
  next
    case False
    with Suc.prems have "y = h" by simp
    with Suc.prems show ?thesis by (simp add: grid_Suc nth_append length_grid)
  qed
qed

lemma grid_index: "0 < (w::nat) \<Longrightarrow> i < h * w \<Longrightarrow> i mod w < w \<and> i div w < h \<and> (i div w) * w + i mod w = i"
proof -
  assume w: "0 < w" and i: "i < h * w"
  have "i div w < h" using i by (rule less_mult_imp_div_less)
  then show ?thesis using w by simp
qed

lemma grid_nth_data:
  assumes "length xs = h * w"
  shows "grid w h (\<lambda>x y. xs ! (y * w + x)) = xs"
proof (rule nth_equalityI)
  show "length (grid w h (\<lambda>x y. xs ! (y * w + x))) = length xs"
    using assms by (simp add: length_grid)
next
  fix i assume "i < length (grid w h (\<lambda>x y. xs ! (y * w + x)))"
  then have i: "i < h * w" by (simp add: length_grid)
  then have w: "0 < w" by (cases w) simp_all
  from grid_index[OF w i] have a: "i mod w < w" "i div w < h" "(i div w) * w + i mod w = i" by simp_all
  from nth_grid[OF a(1) a(2), of "\<lambda>x y. xs ! (y * w + x)"] a(3)
  show "grid w h (\<lambda>x y. xs ! (y * w + x)) ! i = xs ! i" by simp
qed

section \<open>The bounding box\<close>

lemma column_has_content_iff:
  "x < width img \<Longrightarrow> column_has_content c img x = (\<exists>y. content_at c img x y)"
  by (auto simp: column_has_content_def content_at_def list_ex_iff)

lemma row_has_content_iff:
  "y < height img \<Longrightarrow> row_has_content c img y = (\<exists>x. content_at c img x y)"
  by (auto simp: row_has_content_def content_at_def list_ex_iff)

lemma content_at_column:
  "content_at c img x y \<Longrightarrow> x < width img \<and> column_has_content c img x"
  using column_has_content_iff[of x img c] by (auto simp: content_at_def)

lemma content_at_row:
  "content_at c img x y \<Longrightarrow> y < height img \<and> row_has_content c img y"
  using row_has_content_iff[of y img c] by (auto simp: content_at_def)

lemma columns_empty_iff:
  "filter (column_has_content c img) [0..<width img] = [] \<longleftrightarrow> (\<forall>x y. \<not> content_at c img x y)"
proof
  assume "filter (column_has_content c img) [0..<width img] = []"
  then have "\<forall>x<width img. \<not> column_has_content c img x" by (simp add: filter_empty_conv)
  then show "\<forall>x y. \<not> content_at c img x y" using content_at_column by blast
next
  assume "\<forall>x y. \<not> content_at c img x y"
  then show "filter (column_has_content c img) [0..<width img] = []"
    by (simp add: filter_empty_conv column_has_content_iff)
qed

lemma rows_empty_iff:
  "filter (row_has_content c img) [0..<height img] = [] \<longleftrightarrow> (\<forall>x y. \<not> content_at c img x y)"
proof
  assume "filter (row_has_content c img) [0..<height img] = []"
  then have "\<forall>y<height img. \<not> row_has_content c img y" by (simp add: filter_empty_conv)
  then show "\<forall>x y. \<not> content_at c img x y" using content_at_row by blast
next
  assume "\<forall>x y. \<not> content_at c img x y"
  then show "filter (row_has_content c img) [0..<height img] = []"
    by (simp add: filter_empty_conv row_has_content_iff)
qed

lemma getbbox_None_iff: "getbbox c img = None \<longleftrightarrow> (\<forall>x y. \<not> content_at c img x y)"
  using columns_empty_iff[of c img] rows_empty_iff[of c img]
  by (auto simp: getbbox_def Let_def)

lemma getbbox_Some_is_bbox:
  assumes "getbbox c img = Some (l, t, r, b)"
  shows "is_bbox c img (l, t, r, b)"
proof -
  let ?xs = "filter (column_has_content c img) [0..<width img]"
  let ?ys = "filter (row_has_content c img) [0..<height img]"
  from assms have ne: "?xs \<noteq> []" "?ys \<noteq> []"
    and eq: "l = hd ?xs" "t = hd ?ys" "r = Suc (last ?xs)" "b = Suc (last ?ys)"
    by (auto simp: getbbox_def Let_def split: if_splits)
  note xh = filter_upt_hd[OF ne(1)] and xl = filter_upt_last[OF ne(1)]
   and yh = filter_upt_hd[OF ne(2)] and yl = filter_upt_last[OF ne(2)]
  have "l \<le> last ?xs" unfolding eq using xh(3)[OF xl(2) xl(1)] .
  moreover have "t \<le> last ?ys" unfolding eq using yh(3)[OF yl(2) yl(1)] .
  moreover have "l \<le> x \<and> x < r \<and> t \<le> y \<and> y < b" if ca: "content_at c img x y" for x y
  proof -
    from content_at_column[OF ca] have cx: "x < width img" "column_has_content c img x"
      by simp_all
    from content_at_row[OF ca] have cy: "y < height img" "row_has_content c img y"
      by simp_all
    from xh(3)[OF cx] xl(3)[OF cx] yh(3)[OF cy] yl(3)[OF cy]
    show ?thesis unfolding eq by simp
  qed
  moreover have "\<exists>y. content_at c img l y" "\<exists>y. content_at c img (r - 1) y"
    using xh(1,2) xl(1,2) unfolding eq by (simp_all add: column_has_content_iff)
  moreover have "\<exists>x. content_at c img x t" "\<exists>x. content_at c img x (b - 1)"
    using yh(1,2) yl(1,2) unfolding eq by (simp_all add: row_has_content_iff)
  ultimately show ?thesis
    using xl(2) yl(2) unfolding is_bbox_def eq by simp
qed

lemma is_bbox_unique:
  assumes "is_bbox c img (l, t, r, b)" and "is_bbox c img (l', t', r', b')"
  shows "(l, t, r, b) = (l', t', r', b')"
proof -
  have *: "l \<le> l' \<and> t \<le> t' \<and> r' \<le> r \<and> b' \<le> b"
    if a: "is_bbox c img (l, t, r, b)" and a': "is_bbox c img (l', t', r', b')"
    for l t r b l' t' r' b'
  proof -
    from a' obtain y1 y2 x1 x2 where
      "content_at c img l' y1" "content_at c img (r' - 1) y2"
      "content_at c img x1 t'" "content_at c img x2 (b' - 1)"
      and "l' < r'" "t' < b'"
      by (auto simp: is_bbox_def)
    with a show ?thesis unfolding is_bbox_def by fastforce
  qed
  from *[OF assms] *[OF assms(2,1)] show ?thesis by simp
qed

lemma getbbox_eq_SomeI:
  assumes "is_bbox c img bb"
  shows "getbbox c img = Some bb"
proof (cases "getbbox c img")
  case None
  obtain l t r b where bb: "bb = (l, t, r, b)" by (cases bb) auto
  from assms have "\<exists>y. content_at c img l y" by (simp add: bb is_bbox_def)
  with None show ?thesis by (simp add: getbbox_None_iff)
next
  case (Some bb')
  obtain l t r b where bb: "bb = (l, t, r, b)" by (cases bb) auto
  obtain l' t' r' b' where bb': "bb' = (l', t', r', b')" by (cases bb') auto
  from Some have "is_bbox c img bb'" unfolding bb' by (rule getbbox_Some_is_bbox)
  with assms have "bb = bb'" unfolding bb bb' by (rule is_bbox_unique)
  with Some show ?thesis by simp
qed

section \<open>Crop and threshold together\<close>

lemma grid_cong:
  "(\<And>x y. x < w \<Longrightarrow> y < h \<Longrightarrow> f x y = g x y) \<Longrightarrow> grid w h f = grid w h g"
  unfolding grid_def by (intro arg_cong[where f = concat] map_cong refl) simp

lemma set_grid: "set (grid w h f) = {f x y | x y. x < w \<and> y < h}"
  by (fastforce simp: grid_def)

lemma wf_image_crop: "wf_image (crop img bb)"
  by (cases bb) (simp add: wf_image_def length_grid mult.commute)

lemma pixel_at_index:
  "wf_image img \<Longrightarrow> x < width img \<Longrightarrow> y < height img \<Longrightarrow> y * width img + x < length (data img)"
proof -
  assume wf: "wf_image img" and x: "x < width img" and y: "y < height img"
  have "y * width img + x < Suc y * width img" using x by simp
  also have "\<dots> \<le> height img * width img" using y by (intro mult_le_mono1) simp
  finally show ?thesis using wf by (simp add: wf_image_def mult.commute)
qed

lemma pixel_at_grid:
  "pixel_at \<lparr>width = w, height = h, data = grid w h f\<rparr> x y =
     (if x < w \<and> y < h then f x y else (0, 0, 0, 0))"
  by (simp add: pixel_at_def nth_grid)

lemma pixel_at_crop:
  "pixel_at (crop img (l, t, r, b)) x y =
     (if x < r - l \<and> y < b - t then pixel_at img (l + x) (t + y) else (0, 0, 0, 0))"
  by (simp add: pixel_at_grid)

lemma size_crop [simp]:
  "width (crop img (l, t, r, b)) = r - l" "height (crop img (l, t, r, b)) = b - t"
  by simp_all

lemma data_crop:
  "data (crop img (l, t, r, b)) = grid (r - l) (b - t) (\<lambda>x y. pixel_at img (l + x) (t + y))"
  by simp

lemma crop_full:
  assumes "wf_image img"
  shows "crop img (0, 0, width img, height img) = img"
proof -
  have "grid (width img) (height img) (\<lambda>x y. pixel_at img x y)
        = grid (width img) (height img) (\<lambda>x y. data img ! (y * width img + x))"
    by (rule grid_cong) (simp add: pixel_at_def)
  also have "\<dots> = data img"
    using assms by (intro grid_nth_data) (simp add: wf_image_def mult.commute)
  finally show ?thesis by simp
qed

declare crop.simps [simp del]

lemma content_at_crop:
  assumes "content_at c img x y" and "l \<le> x" "x < r" "t \<le> y" "y < b"
  shows "content_at c (crop img (l, t, r, b)) (x - l) (y - t)"
proof -
  from assms(2-5) have "x - l < r - l" "y - t < b - t" "l + (x - l) = x" "t + (y - t) = y"
    by arith+
  with assms(1) show ?thesis by (simp add: content_at_def pixel_at_crop)
qed

lemma is_bbox_crop:
  assumes "is_bbox c img (l, t, r, b)"
  shows "is_bbox c (crop img (l, t, r, b)) (0, 0, r - l, b - t)"
proof -
  let ?c = "crop img (l, t, r, b)"
  from assms have lr: "l < r" and tb: "t < b"
    and inside: "\<And>x y. content_at c img x y \<Longrightarrow> l \<le> x \<and> x < r \<and> t \<le> y \<and> y < b"
    by (simp_all add: is_bbox_def)
  have move: "content_at c ?c (x - l) (y - t)" if "content_at c img x y" for x y
    using that inside[OF that] by (intro content_at_crop) simp_all
  from assms obtain y1 y2 x1 x2 where
    "content_at c img l y1" "content_at c img (r - 1) y2"
    "content_at c img x1 t" "content_at c img x2 (b - 1)"
    by (auto simp: is_bbox_def)
  from move[OF this(1)] move[OF this(2)] move[OF this(3)] move[OF this(4)]
  have "\<exists>y. content_at c ?c 0 y" "\<exists>y. content_at c ?c (r - l - 1) y"
    "\<exists>x. content_at c ?c x 0" "\<exists>x. content_at c ?c x (b - t - 1)"
    by (auto simp: diff_commute)
  moreover have "x < r - l \<and> y < b - t" if "content_at c ?c x y" for x y
    using that by (simp add: content_at_def)
  ultimately show ?thesis using lr tb unfolding is_bbox_def by simp
qed

lemma threshold_item_idem: "threshold_item (threshold_item p) = threshold_item p"
  by (cases p) (simp add: threshold_def)

lemma threshold_item_zero: "threshold_item (0, 0, 0, 0) = (0, 0, 0, 0)"
  by (simp add: threshold_def)

lemma apply_threshold_fixed:
  "(\<And>p. p \<in> set (data img) \<Longrightarrow> threshold_item p = p) \<Longrightarrow> apply_threshold img = img"
  by (simp add: apply_threshold_eq map_idI)

lemma apply_threshold_idem: "apply_threshold (apply_threshold img) = apply_threshold img"
  by (simp add: apply_threshold_eq threshold_item_idem)

lemma pixel_at_in_data:
  "wf_image img \<Longrightarrow> x < width img \<Longrightarrow> y < height img \<Longrightarrow> pixel_at img x y \<in> set (data img)"
  using pixel_at_index[of img x y] by (simp add: pixel_at_def)

lemma pixel_at_threshold:
  assumes "wf_image img"
  shows "pixel_at (apply_threshold img) x y = threshold_item (pixel_at img x y)"
proof (cases "x < width img \<and> y < height img")
  case True
  with pixel_at_index[OF assms, of x y] show ?thesis
    by (simp add: pixel_at_def apply_threshold_eq)
next
  case False
  then show ?thesis by (auto simp: pixel_at_def apply_threshold_eq threshold_item_zero)
qed

lemma crop_threshold_fixed:
  assumes "wf_image img"
  shows "apply_threshold (crop (apply_threshold img) bb) = crop (apply_threshold img) bb"
proof (rule apply_threshold_fixed)
  fix p assume p: "p \<in> set (data (crop (apply_threshold img) bb))"
  obtain l t r b where bb: "bb = (l, t, r, b)" by (cases bb) auto
  from p obtain x y where "p = pixel_at (apply_threshold img) x y"
    by (auto simp: bb data_crop set_grid)
  then show "threshold_item p = p"
    by (simp add: pixel_at_threshold[OF assms] threshold_item_idem)
qed

lemma crop_content_fixed:
  assumes "wf_image img" and "getbbox c img = Some (l, t, r, b)"
  shows "crop_content c (crop img (l, t, r, b)) = crop img (l, t, r, b)"
proof -
  let ?c = "crop img (l, t, r, b)"
  from assms(2) have "is_bbox c img (l, t, r, b)" by (rule getbbox_Some_is_bbox)
  then have "is_bbox c ?c (0, 0, width ?c, height ?c)"
    unfolding size_crop by (rule is_bbox_crop)
  then have "getbbox c ?c = Some (0, 0, width ?c, height ?c)" by (rule getbbox_eq_SomeI)
  moreover have "crop ?c (0, 0, width ?c, height ?c) = ?c"
    by (rule crop_full) (rule wf_image_crop)
  ultimately show ?thesis by (simp add: crop_content_def)
qed

text \<open>
  C4. Running the threshold and crop steps again on their own output changes nothing: the
  output of one run is a fixed point. This holds whichever pixels the bounding box counts
  as content.
\<close>

theorem process_idempotent:
  assumes "wf_image img"
  shows "process c (process c img) = process c img"
proof (cases "getbbox c (apply_threshold img)")
  case None
  then show ?thesis by (simp add: process_def crop_content_def apply_threshold_idem)
next
  case (Some bb)
  obtain l t r b where bb: "bb = (l, t, r, b)" by (cases bb) auto
  let ?t = "apply_threshold img"
  have p: "process c img = crop ?t (l, t, r, b)"
    using Some by (simp add: process_def crop_content_def bb)
  have "wf_image ?t" using assms by (simp add: apply_threshold_eq wf_image_def)
  then have "crop_content c (crop ?t (l, t, r, b)) = crop ?t (l, t, r, b)"
    using Some unfolding bb by (rule crop_content_fixed)
  moreover have "apply_threshold (crop ?t (l, t, r, b)) = crop ?t (l, t, r, b)"
    using assms by (rule crop_threshold_fixed)
  ultimately show ?thesis by (simp add: p) (simp add: process_def)
qed

text \<open>
  C6. The output buffer is never wider and never higher than the input buffer.
\<close>

theorem output_dimensions_le:
  "width (process c img) \<le> width img \<and> height (process c img) \<le> height img"
proof (cases "getbbox c (apply_threshold img)")
  case None
  then show ?thesis by (simp add: process_def crop_content_def apply_threshold_eq)
next
  case (Some bb)
  obtain l t r b where bb: "bb = (l, t, r, b)" by (cases bb) auto
  from Some have "is_bbox c (apply_threshold img) (l, t, r, b)"
    unfolding bb by (rule getbbox_Some_is_bbox)
  then have "r \<le> width img" "b \<le> height img"
    by (simp_all add: is_bbox_def apply_threshold_eq)
  then have "r - l \<le> width img" "b - t \<le> height img" by arith+
  with Some show ?thesis by (simp add: process_def crop_content_def bb)
qed

lemma crop_content_all_content:
  assumes wf: "wf_image img"
    and all: "\<And>x y. x < width img \<Longrightarrow> y < height img \<Longrightarrow> c (pixel_at img x y)"
  shows "crop_content c img = img"
proof (cases "0 < width img \<and> 0 < height img")
  case True
  then have w1: "width img - 1 < width img" and h1: "height img - 1 < height img"
    and w0: "0 < width img" and h0: "0 < height img"
    by simp_all
  have "content_at c img 0 0" "content_at c img (width img - 1) 0"
    "content_at c img 0 (height img - 1)"
    using all[OF w0 h0] all[OF w1 h0] all[OF w0 h1] w0 h0 w1 h1 by (simp_all add: content_at_def)
  then have "\<exists>y. content_at c img 0 y" "\<exists>y. content_at c img (width img - 1) y"
    "\<exists>x. content_at c img x 0" "\<exists>x. content_at c img x (height img - 1)"
    by blast+
  moreover have "x < width img \<and> y < height img" if "content_at c img x y" for x y
    using that by (simp add: content_at_def)
  ultimately have "is_bbox c img (0, 0, width img, height img)"
    using w0 h0 by (simp add: is_bbox_def)
  then have "getbbox c img = Some (0, 0, width img, height img)" by (rule getbbox_eq_SomeI)
  then show ?thesis using crop_full[OF wf] by (simp add: crop_content_def)
next
  case False
  then have "\<forall>x y. \<not> content_at c img x y" by (auto simp: content_at_def)
  then have "getbbox c img = None" by (simp add: getbbox_None_iff)
  then show ?thesis by (simp add: crop_content_def)
qed

lemma alpha_only_content_at:
  "content_at alpha_only img x y =
     (x < width img \<and> y < height img \<and> alpha (pixel_at img x y) \<noteq> 0)"
  by (simp add: content_at_def alpha_only_def)

lemma alpha_pixel_at_range:
  "alpha (pixel_at img x y) \<noteq> 0 \<Longrightarrow> x < width img \<and> y < height img"
  by (auto simp: pixel_at_def split: if_splits)

lemma alpha_only_content_at_iff:
  "content_at alpha_only img x y = (alpha (pixel_at img x y) \<noteq> 0)"
  using alpha_pixel_at_range[of img x y] by (auto simp: alpha_only_content_at)

lemma crop_content_eq_iff:
  assumes wf: "wf_image img"
  shows "crop_content c img = img \<longleftrightarrow>
           (\<forall>x y. \<not> content_at c img x y) \<or>
           ((\<exists>y. content_at c img 0 y) \<and> (\<exists>y. content_at c img (width img - 1) y) \<and>
            (\<exists>x. content_at c img x 0) \<and> (\<exists>x. content_at c img x (height img - 1)))"
proof (cases "getbbox c img")
  case None
  then have "\<forall>x y. \<not> content_at c img x y" by (simp add: getbbox_None_iff)
  moreover have "crop_content c img = img" using None by (simp add: crop_content_def)
  ultimately show ?thesis by simp
next
  case (Some bb)
  obtain l t r b where bb: "bb = (l, t, r, b)" by (cases bb) auto
  from Some have box: "is_bbox c img (l, t, r, b)" unfolding bb by (rule getbbox_Some_is_bbox)
  then have some: "\<exists>x y. content_at c img x y" by (auto simp: is_bbox_def)
  have cc: "crop_content c img = crop img (l, t, r, b)"
    using Some by (simp add: crop_content_def bb)
  show ?thesis
  proof
    assume same: "crop_content c img = img"
    then have "width (crop img (l, t, r, b)) = width img" "height (crop img (l, t, r, b)) = height img"
      by (simp_all add: cc)
    then have d: "r - l = width img" "b - t = height img" by simp_all
    from box have "l < r" "r \<le> width img" "t < b" "b \<le> height img"
      by (simp_all add: is_bbox_def)
    with d have e: "l = 0" "r = width img" "t = 0" "b = height img" by arith+
    from box show "(\<forall>x y. \<not> content_at c img x y) \<or>
           ((\<exists>y. content_at c img 0 y) \<and> (\<exists>y. content_at c img (width img - 1) y) \<and>
            (\<exists>x. content_at c img x 0) \<and> (\<exists>x. content_at c img x (height img - 1)))"
      unfolding e by (simp add: is_bbox_def)
  next
    assume "(\<forall>x y. \<not> content_at c img x y) \<or>
           ((\<exists>y. content_at c img 0 y) \<and> (\<exists>y. content_at c img (width img - 1) y) \<and>
            (\<exists>x. content_at c img x 0) \<and> (\<exists>x. content_at c img x (height img - 1)))"
    with some have edges: "\<exists>y. content_at c img 0 y" "\<exists>y. content_at c img (width img - 1) y"
      "\<exists>x. content_at c img x 0" "\<exists>x. content_at c img x (height img - 1)"
      by blast+
    then have pos: "0 < width img" "0 < height img" by (auto simp: content_at_def)
    have "x < width img \<and> y < height img" if "content_at c img x y" for x y
      using that by (simp add: content_at_def)
    with edges pos have "is_bbox c img (0, 0, width img, height img)"
      by (simp add: is_bbox_def)
    with box have "(l, t, r, b) = (0, 0, width img, height img)" by (rule is_bbox_unique)
    then show "crop_content c img = img" using crop_full[OF wf] by (simp add: cc)
  qed
qed

text \<open>
  C3, as amended. Take the content test of a run to be the alpha test. If every pixel of
  the buffer has at least one of R, G, B at 15 or more, the threshold step returns the
  buffer as it is. The threshold and crop steps together return it as it is, the same
  pixels and the same size, exactly when no pixel has a non-zero alpha or each of the
  first and last column and the first and last row holds a pixel with non-zero alpha; in
  particular when every pixel has a non-zero alpha.
\<close>

theorem no_black_identity:
  assumes test: "counts lib = alpha_only"
    and wf: "wf_image img"
    and bright: "\<forall>r g b a. (r, g, b, a) \<in> set (data img) \<longrightarrow> 15 \<le> r \<or> 15 \<le> g \<or> 15 \<le> b"
  shows "apply_threshold img = img \<and>
         (process (counts lib) img = img \<longleftrightarrow>
            (\<forall>x y. x < width img \<and> y < height img \<longrightarrow> alpha (pixel_at img x y) = 0) \<or>
            ((\<exists>y. y < height img \<and> alpha (pixel_at img 0 y) \<noteq> 0) \<and>
             (\<exists>y. y < height img \<and> alpha (pixel_at img (width img - 1) y) \<noteq> 0) \<and>
             (\<exists>x. x < width img \<and> alpha (pixel_at img x 0) \<noteq> 0) \<and>
             (\<exists>x. x < width img \<and> alpha (pixel_at img x (height img - 1)) \<noteq> 0))) \<and>
         ((\<forall>r g b a. (r, g, b, a) \<in> set (data img) \<longrightarrow> a \<noteq> 0) \<longrightarrow>
            process (counts lib) img = img)"
proof -
  have fixed: "threshold_item p = p" if "p \<in> set (data img)" for p
  proof -
    obtain r g b a where p: "p = (r, g, b, a)" by (cases p) auto
    with that bright have "15 \<le> r \<or> 15 \<le> g \<or> 15 \<le> b" by blast
    then show ?thesis by (auto simp: p threshold_def)
  qed
  then have t: "apply_threshold img = img" by (rule apply_threshold_fixed)
  then have p: "process (counts lib) img = crop_content alpha_only img"
    by (simp add: process_def test)
  have iff: "crop_content alpha_only img = img \<longleftrightarrow>
            (\<forall>x y. x < width img \<and> y < height img \<longrightarrow> alpha (pixel_at img x y) = 0) \<or>
            ((\<exists>y. y < height img \<and> alpha (pixel_at img 0 y) \<noteq> 0) \<and>
             (\<exists>y. y < height img \<and> alpha (pixel_at img (width img - 1) y) \<noteq> 0) \<and>
             (\<exists>x. x < width img \<and> alpha (pixel_at img x 0) \<noteq> 0) \<and>
             (\<exists>x. x < width img \<and> alpha (pixel_at img x (height img - 1)) \<noteq> 0))"
    unfolding crop_content_eq_iff[OF wf] alpha_only_content_at_iff
    using alpha_pixel_at_range[of img] by (intro arg_cong2[where f = "(\<or>)"] arg_cong2[where f = "(\<and>)"]) blast+
  have all: "crop_content alpha_only img = img"
    if opaque: "\<forall>r g b a. (r, g, b, a) \<in> set (data img) \<longrightarrow> a \<noteq> 0"
  proof (rule crop_content_all_content[OF wf])
    fix x y assume xy: "x < width img" "y < height img"
    obtain r g b a where q: "pixel_at img x y = (r, g, b, a)" by (cases "pixel_at img x y") auto
    with pixel_at_in_data[OF wf xy] opaque have "a \<noteq> 0" by metis
    with q show "alpha_only (pixel_at img x y)" by (simp add: alpha_only_def)
  qed
  from t iff all show ?thesis unfolding p by blast
qed

text \<open>
  C5. If every pixel of the buffer has R, G and B all below 15, the thresholded buffer has
  no bounding box, nothing is cropped, and the result (an image, not an error) has the
  input's width and height and only \<open>(0,0,0,0)\<close> pixels. This holds for every content test
  that does not count \<open>(0,0,0,0)\<close>.
\<close>

theorem all_black_no_crop:
  assumes wf: "wf_image img"
    and dark: "\<forall>r g b a. (r, g, b, a) \<in> set (data img) \<longrightarrow> r < 15 \<and> g < 15 \<and> b < 15"
    and zero: "\<not> c (0, 0, 0, 0)"
  shows "getbbox c (apply_threshold img) = None \<and>
         process c img = apply_threshold img \<and>
         width (process c img) = width img \<and> height (process c img) = height img \<and>
         data (process c img) = replicate (width img * height img) (0, 0, 0, 0)"
proof -
  have z: "threshold_item p = (0, 0, 0, 0)" if "p \<in> set (data img)" for p
  proof -
    obtain r g b a where p: "p = (r, g, b, a)" by (cases p) auto
    with that dark have "r < 15 \<and> g < 15 \<and> b < 15" by blast
    then show ?thesis by (simp add: p threshold_def)
  qed
  have d: "data (apply_threshold img) = replicate (width img * height img) (0, 0, 0, 0)"
    using wf z by (auto simp: apply_threshold_eq wf_image_def intro!: replicate_eqI)
  have "pixel_at (apply_threshold img) x y = (0, 0, 0, 0)" for x y
  proof (cases "x < width img \<and> y < height img")
    case True
    with pixel_at_in_data[OF wf, of x y] z show ?thesis
      by (simp add: pixel_at_threshold[OF wf])
  next
    case False
    then show ?thesis by (auto simp: pixel_at_def apply_threshold_eq)
  qed
  with zero have n: "getbbox c (apply_threshold img) = None"
    by (simp add: getbbox_None_iff content_at_def)
  then have "process c img = apply_threshold img" by (simp add: process_def crop_content_def)
  with n d show ?thesis by (simp add: apply_threshold_eq)
qed

text \<open>
  C2, as amended. Take the content test of a run to be the alpha test, and let \<open>T\<close> be the
  thresholded buffer. A pixel counts as content exactly when its alpha is not zero; its
  colour does not matter. Whenever \<open>T\<close> has a pixel with non-zero alpha, there is a
  bounding box and the pipeline crops to it: the box lies inside the image; the result is
  the sub-rectangle of the box; every pixel outside the box has alpha zero; each of the
  four edges of the box holds a pixel with non-zero alpha; and the box is inside every
  rectangle that contains all such pixels. When no pixel of \<open>T\<close> has a non-zero alpha
  there is no box and \<open>T\<close> is kept as it is.
\<close>

theorem crop_correct:
  assumes test: "counts lib = alpha_only" and T: "T = apply_threshold img"
  shows "((\<exists>x y. x < width T \<and> y < height T \<and> alpha (pixel_at T x y) \<noteq> 0) \<longrightarrow>
    (\<exists>l t r b.
     getbbox (counts lib) T = Some (l, t, r, b) \<and>
     process (counts lib) img = crop T (l, t, r, b) \<and>
     l < r \<and> r \<le> width T \<and> t < b \<and> b \<le> height T \<and>
     width (process (counts lib) img) = r - l \<and>
     height (process (counts lib) img) = b - t \<and>
     (\<forall>x y. x < r - l \<and> y < b - t \<longrightarrow>
        pixel_at (process (counts lib) img) x y = pixel_at T (l + x) (t + y)) \<and>
     (\<forall>x y. x < width T \<and> y < height T \<and> \<not> (l \<le> x \<and> x < r \<and> t \<le> y \<and> y < b) \<longrightarrow>
        alpha (pixel_at T x y) = 0) \<and>
     (\<exists>y. t \<le> y \<and> y < b \<and> alpha (pixel_at T l y) \<noteq> 0) \<and>
     (\<exists>y. t \<le> y \<and> y < b \<and> alpha (pixel_at T (r - 1) y) \<noteq> 0) \<and>
     (\<exists>x. l \<le> x \<and> x < r \<and> alpha (pixel_at T x t) \<noteq> 0) \<and>
     (\<exists>x. l \<le> x \<and> x < r \<and> alpha (pixel_at T x (b - 1)) \<noteq> 0) \<and>
     (\<forall>l' t' r' b'.
        (\<forall>x y. x < width T \<and> y < height T \<and> alpha (pixel_at T x y) \<noteq> 0 \<longrightarrow>
           l' \<le> x \<and> x < r' \<and> t' \<le> y \<and> y < b') \<longrightarrow>
        l' \<le> l \<and> t' \<le> t \<and> r \<le> r' \<and> b \<le> b'))) \<and>
   ((\<forall>x y. x < width T \<and> y < height T \<longrightarrow> alpha (pixel_at T x y) = 0) \<longrightarrow>
      getbbox (counts lib) T = None \<and> process (counts lib) img = T)"
proof (intro conjI impI)
  note ca = alpha_only_content_at
  have p: "process (counts lib) img = crop_content alpha_only T"
    by (simp add: process_def test T)
  {
    assume "\<forall>x y. x < width T \<and> y < height T \<longrightarrow> alpha (pixel_at T x y) = 0"
    then have n: "getbbox alpha_only T = None" by (simp add: getbbox_None_iff ca)
    then show "getbbox (counts lib) T = None" by (simp add: test)
    from n show "process (counts lib) img = T" by (simp add: p crop_content_def)
  }
  assume "\<exists>x y. x < width T \<and> y < height T \<and> alpha (pixel_at T x y) \<noteq> 0"
  then have "getbbox alpha_only T \<noteq> None" by (auto simp: getbbox_None_iff ca)
  then obtain l t r b where g: "getbbox alpha_only T = Some (l, t, r, b)"
    by (cases "getbbox alpha_only T") auto
  then have bb: "is_bbox alpha_only T (l, t, r, b)" by (rule getbbox_Some_is_bbox)
  then have bounds: "l < r" "r \<le> width T" "t < b" "b \<le> height T"
    and inside: "\<And>x y. content_at alpha_only T x y \<Longrightarrow> l \<le> x \<and> x < r \<and> t \<le> y \<and> y < b"
    by (simp_all add: is_bbox_def)
  from bb obtain y1 y2 x1 x2 where edge:
    "content_at alpha_only T l y1" "content_at alpha_only T (r - 1) y2"
    "content_at alpha_only T x1 t" "content_at alpha_only T x2 (b - 1)"
    by (auto simp: is_bbox_def)
  have c: "process (counts lib) img = crop T (l, t, r, b)"
    using g by (simp add: p crop_content_def)
  have e1: "\<exists>y. t \<le> y \<and> y < b \<and> alpha (pixel_at T l y) \<noteq> 0"
    using edge(1) inside[OF edge(1)] unfolding ca by blast
  have e2: "\<exists>y. t \<le> y \<and> y < b \<and> alpha (pixel_at T (r - 1) y) \<noteq> 0"
    using edge(2) inside[OF edge(2)] unfolding ca by blast
  have e3: "\<exists>x. l \<le> x \<and> x < r \<and> alpha (pixel_at T x t) \<noteq> 0"
    using edge(3) inside[OF edge(3)] unfolding ca by blast
  have e4: "\<exists>x. l \<le> x \<and> x < r \<and> alpha (pixel_at T x (b - 1)) \<noteq> 0"
    using edge(4) inside[OF edge(4)] unfolding ca by blast
  have out: "\<forall>x y. x < width T \<and> y < height T \<and> \<not> (l \<le> x \<and> x < r \<and> t \<le> y \<and> y < b) \<longrightarrow>
        alpha (pixel_at T x y) = 0"
    using inside unfolding ca by blast
  have px: "\<forall>x y. x < r - l \<and> y < b - t \<longrightarrow>
        pixel_at (process (counts lib) img) x y = pixel_at T (l + x) (t + y)"
    by (simp add: c pixel_at_crop)
  have minimal: "l' \<le> l \<and> t' \<le> t \<and> r \<le> r' \<and> b \<le> b'"
    if box: "\<forall>x y. x < width T \<and> y < height T \<and> alpha (pixel_at T x y) \<noteq> 0 \<longrightarrow>
           l' \<le> x \<and> x < r' \<and> t' \<le> y \<and> y < b'" for l' t' r' b'
  proof -
    have in': "l' \<le> x \<and> x < r' \<and> t' \<le> y \<and> y < b'" if "content_at alpha_only T x y" for x y
      using that box unfolding ca by blast
    from in'[OF edge(1)] in'[OF edge(2)] in'[OF edge(3)] in'[OF edge(4)] bounds
    show ?thesis by arith
  qed
  have g': "getbbox (counts lib) T = Some (l, t, r, b)" using g by (simp add: test)
  show "\<exists>l t r b.
     getbbox (counts lib) T = Some (l, t, r, b) \<and>
     process (counts lib) img = crop T (l, t, r, b) \<and>
     l < r \<and> r \<le> width T \<and> t < b \<and> b \<le> height T \<and>
     width (process (counts lib) img) = r - l \<and>
     height (process (counts lib) img) = b - t \<and>
     (\<forall>x y. x < r - l \<and> y < b - t \<longrightarrow>
        pixel_at (process (counts lib) img) x y = pixel_at T (l + x) (t + y)) \<and>
     (\<forall>x y. x < width T \<and> y < height T \<and> \<not> (l \<le> x \<and> x < r \<and> t \<le> y \<and> y < b) \<longrightarrow>
        alpha (pixel_at T x y) = 0) \<and>
     (\<exists>y. t \<le> y \<and> y < b \<and> alpha (pixel_at T l y) \<noteq> 0) \<and>
     (\<exists>y. t \<le> y \<and> y < b \<and> alpha (pixel_at T (r - 1) y) \<noteq> 0) \<and>
     (\<exists>x. l \<le> x \<and> x < r \<and> alpha (pixel_at T x t) \<noteq> 0) \<and>
     (\<exists>x. l \<le> x \<and> x < r \<and> alpha (pixel_at T x (b - 1)) \<noteq> 0) \<and>
     (\<forall>l' t' r' b'.
        (\<forall>x y. x < width T \<and> y < height T \<and> alpha (pixel_at T x y) \<noteq> 0 \<longrightarrow>
           l' \<le> x \<and> x < r' \<and> t' \<le> y \<and> y < b') \<longrightarrow>
        l' \<le> l \<and> t' \<le> t \<and> r \<le> r' \<and> b \<le> b')"
    apply (rule exI[of _ l], rule exI[of _ t], rule exI[of _ r], rule exI[of _ b])
    apply (intro conjI)
    using g' c bounds px out e1 e2 e3 e4 minimal by (simp_all add: c)
qed

section \<open>The run: arguments, decode and encode failures\<close>

lemma argv_index_1: "argv_index (prog # image_path # rest) 1 = Inr image_path"
  by (simp add: argv_index_def)

lemma argv_index_2: "argv_index (prog # image_path # output_path # rest) 2 = Inr output_path"
  by (simp add: argv_index_def numeral_2_eq_2)

lemma main_two_arguments:
  "main lib (prog # image_path # output_path # rest) w =
     (let w1 = print (''Opening '' @ image_path) w
      in case Image_open lib w1 image_path of
           Inl e \<Rightarrow> (Uncaught e, w1)
         | Inr src \<Rightarrow>
            (let img = process (counts lib) (convert_RGBA src);
                 w2 = print (''Saving to '' @ output_path) w1
             in case save lib w2 img output_path of
                  Inl e \<Rightarrow> (Uncaught e, w2)
                | Inr w3 \<Rightarrow> (Success, print ''Done'' w3)))"
  unfolding main_def argv_index_1 argv_index_2 by simp

lemma Image_open_print: "Image_open lib (print line w) path = Image_open lib w path"
  by (simp add: Image_open_def print_def)

lemma main_open_failed:
  "Image_open lib w image_path = Inl e \<Longrightarrow>
   main lib (prog # image_path # output_path # rest) w =
     (Uncaught e, print (''Opening '' @ image_path) w)"
  by (simp add: main_two_arguments Image_open_print Let_def)

lemma main_opened:
  "Image_open lib w image_path = Inr src \<Longrightarrow>
   main lib (prog # image_path # output_path # rest) w =
     (case save lib (print (''Saving to '' @ output_path) (print (''Opening '' @ image_path) w))
             (process (counts lib) (convert_RGBA src)) output_path of
        Inl e \<Rightarrow> (Uncaught e, print (''Saving to '' @ output_path) (print (''Opening '' @ image_path) w))
      | Inr w3 \<Rightarrow> (Success, print ''Done'' w3))"
  by (simp add: main_two_arguments Image_open_print Let_def split: sum.split)

text \<open>
  C10. \<^verbatim>\<open>sys.argv\<close> holds the script's name and then the arguments. With fewer
  than two arguments the run ends with an uncaught error and a non-zero status at line 4
  or 5: nothing has been printed, no file opened, no file written. Arguments after the
  second are never read.
\<close>

theorem missing_arguments:
  "(length argv < 3 \<longrightarrow>
      main lib argv w = (Uncaught IndexError, w) \<and> exit_status (fst (main lib argv w)) \<noteq> 0) \<and>
   main lib (prog # image_path # output_path # rest) w = main lib [prog, image_path, output_path] w"
proof (intro conjI impI)
  assume short: "length argv < 3"
  show m: "main lib argv w = (Uncaught IndexError, w)"
  proof (cases "1 < length argv")
    case True
    with short have "\<not> 2 < length argv" by simp
    with True show ?thesis by (simp add: main_def argv_index_def)
  next
    case False
    then show ?thesis by (simp add: main_def argv_index_def)
  qed
  show "exit_status (fst (main lib argv w)) \<noteq> 0" by (simp add: m)
next
  show "main lib (prog # image_path # output_path # rest) w = main lib [prog, image_path, output_path] w"
    by (simp only: main_two_arguments)
qed

text \<open>
  C7. In a run with its two arguments, if the input path is missing or its content does
  not decode, the run ends with \<open>DecodeError\<close> and a non-zero status right after the
  line announcing the input: nothing is processed and no file is created or modified.
\<close>

theorem decode_failure_atomic:
  assumes "files w image_path = None \<or>
           (\<exists>bytes. files w image_path = Some bytes \<and> decode lib bytes = None)"
  shows "main lib (prog # image_path # output_path # rest) w =
           (Uncaught DecodeError, w\<lparr>stdout := stdout w @ [''Opening '' @ image_path]\<rparr>) \<and>
         exit_status (fst (main lib (prog # image_path # output_path # rest) w)) \<noteq> 0 \<and>
         files (snd (main lib (prog # image_path # output_path # rest) w)) = files w"
proof -
  from assms have "Image_open lib w image_path = Inl DecodeError"
    by (auto simp: Image_open_def)
  then have "main lib (prog # image_path # output_path # rest) w =
           (Uncaught DecodeError, w\<lparr>stdout := stdout w @ [''Opening '' @ image_path]\<rparr>)"
    by (simp add: main_open_failed print_def)
  then show ?thesis by simp
qed

text \<open>
  C8. In a run whose input decodes, if the output path cannot be written the run ends with
  \<open>EncodeError\<close> and a non-zero status. The error is the one \<^verbatim>\<open>img.save\<close>
  gives for the thresholded and cropped buffer, after the line announcing the output; no
  file has changed and nothing is tried again. Otherwise the run succeeds and the only
  change to the files is the one write of the output path, at the end.
\<close>

theorem encode_failure_after_processing:
  assumes opened: "files w image_path = Some bytes" "decode lib bytes = Some src"
  shows "(\<not> writable w output_path \<longrightarrow>
            main lib (prog # image_path # output_path # rest) w =
              (Uncaught EncodeError,
               w\<lparr>stdout := stdout w @ [''Opening '' @ image_path, ''Saving to '' @ output_path]\<rparr>) \<and>
            save lib (w\<lparr>stdout := stdout w @ [''Opening '' @ image_path, ''Saving to '' @ output_path]\<rparr>)
              (process (counts lib) (convert_RGBA src)) output_path = Inl EncodeError \<and>
            exit_status (fst (main lib (prog # image_path # output_path # rest) w)) \<noteq> 0 \<and>
            files (snd (main lib (prog # image_path # output_path # rest) w)) = files w) \<and>
         (writable w output_path \<longrightarrow>
            fst (main lib (prog # image_path # output_path # rest) w) = Success \<and>
            files (snd (main lib (prog # image_path # output_path # rest) w)) =
              (files w)(output_path \<mapsto> encode_png lib (process (counts lib) (convert_RGBA src))))"
proof -
  from opened have o: "Image_open lib w image_path = Inr src"
    by (simp add: Image_open_def)
  show ?thesis
    by (simp add: main_opened[OF o] save_def print_def)
qed

section \<open>The conversion to RGBA\<close>





section \<open>The theorems at concrete inputs\<close>

theorem threshold_contract_witness:
  "data (apply_threshold \<lparr>width = 2, height = 1, data = [(3, 4, 5, 200), (20, 0, 0, 7)]\<rparr>) ! 0 = (0, 0, 0, 0) \<and>
   data (apply_threshold \<lparr>width = 2, height = 1, data = [(3, 4, 5, 200), (20, 0, 0, 7)]\<rparr>) ! 1 = (20, 0, 0, 7)"
proof -
  let ?img = "\<lparr>width = 2, height = 1, data = [(3, 4, 5, 200), (20, 0, 0, 7)]\<rparr>"
  have c: "\<forall>i r g b a. i < length (data ?img) \<and> data ?img ! i = (r, g, b, a) \<longrightarrow>
      (r < 15 \<and> g < 15 \<and> b < 15 \<longrightarrow> data (apply_threshold ?img) ! i = (0, 0, 0, 0)) \<and>
      (15 \<le> r \<or> 15 \<le> g \<or> 15 \<le> b \<longrightarrow> data (apply_threshold ?img) ! i = (r, g, b, a)) \<and>
      (data (apply_threshold ?img) ! i = (0, 0, 0, 0) \<or>
       data (apply_threshold ?img) ! i = data ?img ! i)"
    using threshold_contract[of ?img] by blast
  from c[rule_format, of 0 3 4 5 200] have "data (apply_threshold ?img) ! 0 = (0, 0, 0, 0)"
    by simp
  moreover from c[rule_format, of 1 20 0 0 7] have "data (apply_threshold ?img) ! 1 = (20, 0, 0, 7)"
    by simp
  ultimately show ?thesis by blast
qed

theorem no_black_identity_witness:
  "wf_image \<lparr>width = 2, height = 1, data = [(15, 0, 0, 7), (0, 3, 200, 255)]\<rparr> \<and>
   process alpha_only \<lparr>width = 2, height = 1, data = [(15, 0, 0, 7), (0, 3, 200, 255)]\<rparr> =
     \<lparr>width = 2, height = 1, data = [(15, 0, 0, 7), (0, 3, 200, 255)]\<rparr>"
proof -
  let ?img = "\<lparr>width = 2, height = 1, data = [(15, 0, 0, 7), (0, 3, 200, 255)]\<rparr>"
  let ?lib = "\<lparr>decode = (\<lambda>bytes. None), encode_png = (\<lambda>img. []), counts = alpha_only\<rparr>"
  have test: "counts ?lib = alpha_only" by simp
  have wf: "wf_image ?img" by (simp add: wf_image_def)
  have bright: "\<forall>r g b a. (r, g, b, a) \<in> set (data ?img) \<longrightarrow> 15 \<le> r \<or> 15 \<le> g \<or> 15 \<le> b"
    by auto
  have seen: "\<forall>r g b a. (r, g, b, a) \<in> set (data ?img) \<longrightarrow> a \<noteq> 0"
    by auto
  from no_black_identity[OF test wf bright] seen have "process (counts ?lib) ?img = ?img"
    by blast
  with wf show ?thesis by simp
qed

text \<open>
  C3 as the spec states it fails: both pixels of this buffer have a channel at 15 or more,
  so the threshold step keeps them, yet the first has alpha zero and is cropped away.
\<close>

theorem no_black_identity_counterexample:
  "wf_image \<lparr>width = 2, height = 1, data = [(15, 0, 0, 0), (0, 3, 200, 255)]\<rparr> \<and>
   apply_threshold \<lparr>width = 2, height = 1, data = [(15, 0, 0, 0), (0, 3, 200, 255)]\<rparr> =
     \<lparr>width = 2, height = 1, data = [(15, 0, 0, 0), (0, 3, 200, 255)]\<rparr> \<and>
   process alpha_only \<lparr>width = 2, height = 1, data = [(15, 0, 0, 0), (0, 3, 200, 255)]\<rparr> =
     \<lparr>width = 1, height = 1, data = [(0, 3, 200, 255)]\<rparr>"
proof -
  let ?img = "\<lparr>width = 2, height = 1, data = [(15, 0, 0, 0), (0, 3, 200, 255)]\<rparr>"
  have "wf_image ?img" by (simp add: wf_image_def)
  moreover have "apply_threshold ?img = ?img" by (simp add: apply_threshold_eq threshold_def)
  moreover have "process alpha_only ?img = \<lparr>width = 1, height = 1, data = [(0, 3, 200, 255)]\<rparr>"
    by code_simp
  ultimately show ?thesis by blast
qed

theorem process_idempotent_witness:
  "wf_image \<lparr>width = 3, height = 2, data = [(0, 0, 0, 9), (20, 1, 1, 0), (1, 1, 1, 1),
                                            (3, 3, 3, 3), (0, 0, 16, 255), (14, 14, 14, 255)]\<rparr> \<and>
   process alpha_only (process alpha_only \<lparr>width = 3, height = 2, data = [(0, 0, 0, 9), (20, 1, 1, 0), (1, 1, 1, 1),
                                            (3, 3, 3, 3), (0, 0, 16, 255), (14, 14, 14, 255)]\<rparr>) =
     \<lparr>width = 1, height = 1, data = [(0, 0, 16, 255)]\<rparr>"
proof -
  let ?img = "\<lparr>width = 3, height = 2, data = [(0, 0, 0, 9), (20, 1, 1, 0), (1, 1, 1, 1),
                                            (3, 3, 3, 3), (0, 0, 16, 255), (14, 14, 14, 255)]\<rparr>"
  have wf: "wf_image ?img" by (simp add: wf_image_def)
  have p: "process alpha_only ?img = \<lparr>width = 1, height = 1, data = [(0, 0, 16, 255)]\<rparr>"
    by code_simp
  from process_idempotent[OF wf, where c = alpha_only] p wf show ?thesis by simp
qed

theorem all_black_no_crop_witness:
  "wf_image \<lparr>width = 2, height = 2, data = [(0, 0, 0, 255), (14, 14, 14, 7), (3, 2, 1, 0), (0, 0, 0, 0)]\<rparr> \<and>
   process alpha_only \<lparr>width = 2, height = 2, data = [(0, 0, 0, 255), (14, 14, 14, 7), (3, 2, 1, 0), (0, 0, 0, 0)]\<rparr> =
     \<lparr>width = 2, height = 2, data = [(0, 0, 0, 0), (0, 0, 0, 0), (0, 0, 0, 0), (0, 0, 0, 0)]\<rparr>"
proof -
  let ?img = "\<lparr>width = 2, height = 2, data = [(0, 0, 0, 255), (14, 14, 14, 7), (3, 2, 1, 0), (0, 0, 0, 0)]\<rparr>"
  have wf: "wf_image ?img" by (simp add: wf_image_def)
  have dark: "\<forall>r g b a. (r, g, b, a) \<in> set (data ?img) \<longrightarrow> r < 15 \<and> g < 15 \<and> b < 15"
    by auto
  have zero: "\<not> alpha_only (0, 0, 0, 0)" by (simp add: alpha_only_def)
  have "process alpha_only ?img = apply_threshold ?img"
    using all_black_no_crop[where c = alpha_only, OF wf dark zero] by blast
  with wf show ?thesis by (simp add: apply_threshold_eq threshold_def)
qed

theorem crop_correct_witness:
  "alpha (pixel_at (apply_threshold \<lparr>width = 3, height = 2, data = [(0, 0, 0, 9), (20, 1, 1, 0), (1, 1, 1, 1),
                                            (3, 3, 3, 3), (0, 0, 16, 255), (14, 14, 14, 255)]\<rparr>) 1 1) \<noteq> 0 \<and>
   getbbox alpha_only (apply_threshold \<lparr>width = 3, height = 2, data = [(0, 0, 0, 9), (20, 1, 1, 0), (1, 1, 1, 1),
                                            (3, 3, 3, 3), (0, 0, 16, 255), (14, 14, 14, 255)]\<rparr>) = Some (1, 1, 2, 2) \<and>
   process alpha_only \<lparr>width = 3, height = 2, data = [(0, 0, 0, 9), (20, 1, 1, 0), (1, 1, 1, 1),
                                            (3, 3, 3, 3), (0, 0, 16, 255), (14, 14, 14, 255)]\<rparr> =
     crop (apply_threshold \<lparr>width = 3, height = 2, data = [(0, 0, 0, 9), (20, 1, 1, 0), (1, 1, 1, 1),
                                            (3, 3, 3, 3), (0, 0, 16, 255), (14, 14, 14, 255)]\<rparr>) (1, 1, 2, 2)"
proof -
  let ?img = "\<lparr>width = 3, height = 2, data = [(0, 0, 0, 9), (20, 1, 1, 0), (1, 1, 1, 1),
                                            (3, 3, 3, 3), (0, 0, 16, 255), (14, 14, 14, 255)]\<rparr>"
  let ?T = "apply_threshold ?img"
  let ?lib = "\<lparr>decode = (\<lambda>bytes. None), encode_png = (\<lambda>img. []), counts = alpha_only\<rparr>"
  have test: "counts ?lib = alpha_only" by simp
  have T: "?T = \<lparr>width = 3, height = 2, data = [(0, 0, 0, 0), (20, 1, 1, 0), (0, 0, 0, 0),
                                            (0, 0, 0, 0), (0, 0, 16, 255), (0, 0, 0, 0)]\<rparr>"
    by (simp add: apply_threshold_eq threshold_def)
  have a: "alpha (pixel_at ?T 1 1) \<noteq> 0" unfolding T by (simp add: pixel_at_def)
  then have h: "\<exists>x y. x < width ?T \<and> y < height ?T \<and> alpha (pixel_at ?T x y) \<noteq> 0"
    using alpha_pixel_at_range by blast
  have g: "getbbox alpha_only ?T = Some (1, 1, 2, 2)" by code_simp
  from crop_correct[OF test refl, of ?img, THEN conjunct1, rule_format, OF h]
  obtain l t r b where
    o: "getbbox (counts ?lib) ?T = Some (l, t, r, b)" "process (counts ?lib) ?img = crop ?T (l, t, r, b)"
    by (elim exE conjE) (rule that)
  from o(1) g have e: "(l, t, r, b) = (1, 1, 2, 2)" by simp
  from o(2) have "process (counts ?lib) ?img = crop ?T (1, 1, 2, 2)" unfolding e .
  then have "process alpha_only ?img = crop ?T (1, 1, 2, 2)" by simp
  with g a show ?thesis by blast
qed

text \<open>
  C2 as the spec states it fails: the thresholded buffer below holds the pixel
  \<open>(200,200,200,0)\<close>, which is not \<open>(0,0,0,0)\<close>, at its centre. By the spec's test the
  box would be the centre alone; by the alpha test there is no box, and the buffer is
  left at its size of three by three.
\<close>

theorem crop_correct_counterexample:
  "pixel_at (apply_threshold \<lparr>width = 3, height = 3, data =
      [(0, 0, 0, 0), (0, 0, 0, 0), (0, 0, 0, 0),
       (0, 0, 0, 0), (200, 200, 200, 0), (0, 0, 0, 0),
       (0, 0, 0, 0), (0, 0, 0, 0), (0, 0, 0, 0)]\<rparr>) 1 1 = (200, 200, 200, 0) \<and>
   getbbox is_content (apply_threshold \<lparr>width = 3, height = 3, data =
      [(0, 0, 0, 0), (0, 0, 0, 0), (0, 0, 0, 0),
       (0, 0, 0, 0), (200, 200, 200, 0), (0, 0, 0, 0),
       (0, 0, 0, 0), (0, 0, 0, 0), (0, 0, 0, 0)]\<rparr>) = Some (1, 1, 2, 2) \<and>
   getbbox alpha_only (apply_threshold \<lparr>width = 3, height = 3, data =
      [(0, 0, 0, 0), (0, 0, 0, 0), (0, 0, 0, 0),
       (0, 0, 0, 0), (200, 200, 200, 0), (0, 0, 0, 0),
       (0, 0, 0, 0), (0, 0, 0, 0), (0, 0, 0, 0)]\<rparr>) = None \<and>
   process alpha_only \<lparr>width = 3, height = 3, data =
      [(0, 0, 0, 0), (0, 0, 0, 0), (0, 0, 0, 0),
       (0, 0, 0, 0), (200, 200, 200, 0), (0, 0, 0, 0),
       (0, 0, 0, 0), (0, 0, 0, 0), (0, 0, 0, 0)]\<rparr> =
     \<lparr>width = 3, height = 3, data =
      [(0, 0, 0, 0), (0, 0, 0, 0), (0, 0, 0, 0),
       (0, 0, 0, 0), (200, 200, 200, 0), (0, 0, 0, 0),
       (0, 0, 0, 0), (0, 0, 0, 0), (0, 0, 0, 0)]\<rparr>"
proof -
  let ?img = "\<lparr>width = 3, height = 3, data =
      [(0, 0, 0, 0), (0, 0, 0, 0), (0, 0, 0, 0),
       (0, 0, 0, 0), (200, 200, 200, 0), (0, 0, 0, 0),
       (0, 0, 0, 0), (0, 0, 0, 0), (0, 0, 0, 0)]\<rparr>"
  have T: "apply_threshold ?img = ?img" by (simp add: apply_threshold_eq threshold_def)
  have "pixel_at ?img 1 1 = (200, 200, 200, 0)" by (simp add: pixel_at_def)
  moreover have "getbbox is_content ?img = Some (1, 1, 2, 2)" by code_simp
  moreover have "getbbox alpha_only ?img = None" by code_simp
  moreover have "process alpha_only ?img = ?img" by code_simp
  ultimately show ?thesis unfolding T by blast
qed

theorem missing_arguments_witness:
  "(let cd = \<lparr>decode = (\<lambda>bytes. None), encode_png = (\<lambda>img. []), counts = alpha_only\<rparr>;
        w = \<lparr>files = (\<lambda>p. None), writable = (\<lambda>p. True), stdout = []\<rparr>
    in main cd [''process_logo.py'', ''logo.png''] w = (Uncaught IndexError, w))"
  using missing_arguments[of "[''process_logo.py'', ''logo.png'']"]
  by (simp add: Let_def)

theorem decode_failure_atomic_witness:
  "(let cd = \<lparr>decode = (\<lambda>bytes. None), encode_png = (\<lambda>img. []), counts = alpha_only\<rparr>;
        w = \<lparr>files = (\<lambda>p. None), writable = (\<lambda>p. True), stdout = []\<rparr>
    in main cd [''process_logo.py'', ''logo.png'', ''out.png''] w =
         (Uncaught DecodeError, w\<lparr>stdout := [''Opening logo.png'']\<rparr>))"
proof -
  let ?cd = "\<lparr>decode = (\<lambda>bytes. None), encode_png = (\<lambda>img. []), counts = alpha_only\<rparr>"
  let ?w = "\<lparr>files = (\<lambda>p. None), writable = (\<lambda>p. True), stdout = []\<rparr>"
  have h: "files ?w ''logo.png'' = None \<or>
           (\<exists>bytes. files ?w ''logo.png'' = Some bytes \<and> decode ?cd bytes = None)"
    by simp
  from decode_failure_atomic[OF h, of "''process_logo.py''" "''out.png''" "[]"]
  show ?thesis by (simp add: Let_def)
qed

theorem encode_failure_after_processing_witness:
  "(let cd = \<lparr>decode = (\<lambda>bytes. Some \<lparr>d_width = 1, d_height = 1, d_raster = Mode_RGB [(200, 10, 10)] None\<rparr>),
               encode_png = (\<lambda>img. []), counts = alpha_only\<rparr>;
        w = \<lparr>files = (\<lambda>p. if p = ''logo.png'' then Some [137, 80] else None),
             writable = (\<lambda>p. False), stdout = []\<rparr>
    in main cd [''process_logo.py'', ''logo.png'', ''out.png''] w =
         (Uncaught EncodeError, w\<lparr>stdout := [''Opening logo.png'', ''Saving to out.png'']\<rparr>))"
proof -
  let ?src = "\<lparr>d_width = 1, d_height = 1, d_raster = Mode_RGB [(200, 10, 10)] None\<rparr>"
  let ?cd = "\<lparr>decode = (\<lambda>bytes. Some ?src), encode_png = (\<lambda>img. []), counts = alpha_only\<rparr>"
  let ?w = "\<lparr>files = (\<lambda>p. if p = ''logo.png'' then Some [137, 80] else None),
             writable = (\<lambda>p. False), stdout = []\<rparr>"
  have f: "files ?w ''logo.png'' = Some [137, 80]" by simp
  have d: "decode ?cd [137, 80] = Some ?src" by simp
  from encode_failure_after_processing[OF f d, of "''out.png''" "''process_logo.py''" "[]"]
  show ?thesis by (simp add: Let_def)
qed



end
